theory Spec2Isabelle
  imports Main "HOL-Library.Word"
begin

unbundle bit_operations_syntax

section \<open>The PCM-to-WAV encoder of \<open>utils/audio.ts\<close>\<close>

text \<open>
  The module turns a base64 string of raw 16-bit PCM into a WAV container:
  \<open>decode\<close> (base64 to bytes), \<open>new Int16Array(rawData.buffer)\<close> (bytes to samples),
  \<open>encodeWAV\<close> (header and samples into a fresh buffer, wrapped in a Blob) and the
  facade \<open>createWavBlob\<close>, which fixes 24000 Hz and one channel.

  Modelling decisions.
  \<^item> A byte is an \<open>8 word\<close>, an \<open>ArrayBuffer\<close>/\<open>DataView\<close>/\<open>Uint8Array\<close> a list of
    bytes, an \<open>Int16Array\<close> a list of \<open>16 word\<close> whose elements read as \<open>sint\<close>.
  \<^item> A thrown exception is a value \<open>Inl e\<close>. The code defines no error class of its
    own; the two exceptions that can arise are the platform's: the
    \<open>InvalidCharacterError\<close> of \<open>atob\<close> and the \<open>RangeError\<close> of the typed-array
    constructor and of the \<open>DataView\<close> setters.
  \<^item> A JavaScript \<open>number\<close> argument is an \<open>int\<close>. The source computes with IEEE
    doubles, which agree with the integers as long as every intermediate value has
    magnitude at most \<open>2 ^ 53\<close>; array lengths are far below that bound in every
    engine. Allocation of the buffer is assumed to succeed.
  \<^item> A JavaScript string is a \<open>string\<close>; a character is its code unit (below 256).
  \<^item> A typed array reads its buffer in the byte order of the host. That order is the
    one input of the module that is not an argument, so it is an explicit parameter
    \<open>host\<close>.
\<close>

type_synonym byte = "8 word"

datatype error = InvalidCharacterError | RangeError

type_synonym 'a result = "error + 'a"

text \<open>Sequencing of statements that may throw: the first exception ends the run.\<close>

definition and_then :: "'a result \<Rightarrow> ('a \<Rightarrow> 'b result) \<Rightarrow> 'b result" where
  "and_then r f = (case r of Inl e \<Rightarrow> Inl e | Inr v \<Rightarrow> f v)"

subsection \<open>The platform's \<open>atob\<close>\<close>

text \<open>
  \<open>atob\<close> is the browser's forgiving base64 decoder (HTML standard, "forgiving-base64
  decode"): ASCII whitespace is removed; if the length is then a multiple of four, one
  or two trailing \<open>=\<close> are removed; a length of 1 modulo 4 or a character outside the
  alphabet throws \<open>InvalidCharacterError\<close>; every four characters give three bytes, two
  or three left-over characters give one or two bytes and their spare bits are dropped.
  The result is a binary string, one character per byte.
\<close>

definition is_ascii_whitespace :: "char \<Rightarrow> bool" where
  "is_ascii_whitespace c \<longleftrightarrow> (of_char c :: nat) \<in> {9, 10, 12, 13, 32}"

definition base64_index :: "char \<Rightarrow> nat option" where
  "base64_index c =
     (let n = (of_char c :: nat) in
      if 65 \<le> n \<and> n \<le> 90 then Some (n - 65)
      else if 97 \<le> n \<and> n \<le> 122 then Some (n - 71)
      else if 48 \<le> n \<and> n \<le> 57 then Some (n + 4)
      else if n = 43 then Some 62
      else if n = 47 then Some 63
      else None)"

definition strip_padding :: "string \<Rightarrow> string" where
  "strip_padding data =
     (if length data mod 4 = 0 then
        (if 2 \<le> length data \<and> drop (length data - 2) data = ''==''
           then take (length data - 2) data
         else if 1 \<le> length data \<and> drop (length data - 1) data = ''=''
           then take (length data - 1) data
         else data)
      else data)"

fun base64_groups :: "nat list \<Rightarrow> nat list" where
  "base64_groups (a # b # c # d # rest) =
     (a * 4 + b div 16) # (b mod 16 * 16 + c div 4) # (c mod 4 * 64 + d) # base64_groups rest"
| "base64_groups [a, b, c] = [a * 4 + b div 16, b mod 16 * 16 + c div 4]"
| "base64_groups [a, b] = [a * 4 + b div 16]"
| "base64_groups _ = []"

definition atob :: "string \<Rightarrow> string result" where
  "atob s =
     (let data = strip_padding (filter (\<lambda>c. \<not> is_ascii_whitespace c) s) in
      if length data mod 4 = 1 then Inl InvalidCharacterError
      else (case those (map base64_index data) of
              None \<Rightarrow> Inl InvalidCharacterError
            | Some sextets \<Rightarrow> Inr (map char_of (base64_groups sextets))))"

subsection \<open>\<open>decode\<close>\<close>

text \<open>
  The loop \<open>for (let i = 0; i < len; i++) bytes[i] = binaryString.charCodeAt(i)\<close> on the
  zero-filled \<open>Uint8Array(len)\<close>; a store into a \<open>Uint8Array\<close> keeps the value modulo 256.
\<close>

function decode_loop :: "string \<Rightarrow> nat \<Rightarrow> nat \<Rightarrow> byte list \<Rightarrow> byte list" where
  "decode_loop binaryString len i bytes =
     (if i < len
      then decode_loop binaryString len (Suc i)
             (bytes[i := word_of_nat (of_char (binaryString ! i))])
      else bytes)"
  by pat_completeness auto
termination
  by (relation "measure (\<lambda>(binaryString, len, i, bytes). len - i)") auto

definition decode :: "string \<Rightarrow> byte list result" where
  "decode base64 =
     and_then (atob base64) (\<lambda>binaryString.
       let len = length binaryString;
           bytes = replicate len 0
       in Inr (decode_loop binaryString len 0 bytes))"

subsection \<open>The \<open>DataView\<close> setters\<close>

text \<open>
  A setter converts its number to the element type modulo \<open>2 ^ bits\<close> (\<open>ToUint8\<close>,
  \<open>ToUint16\<close>, \<open>ToInt16\<close>, \<open>ToUint32\<close>), lays the value out least significant byte
  first when \<open>littleEndian\<close> is true and most significant first otherwise, and throws
  \<open>RangeError\<close> when the bytes would not lie inside the view. A signed and an unsigned
  setter of the same width store the same bytes.
\<close>

fun le_bytes :: "nat \<Rightarrow> int \<Rightarrow> byte list" where
  "le_bytes 0 u = []"
| "le_bytes (Suc k) u = word_of_int (u mod 256) # le_bytes k (u div 256)"

definition raw_bytes :: "nat \<Rightarrow> int \<Rightarrow> bool \<Rightarrow> byte list" where
  "raw_bytes k v littleEndian =
     (let bs = le_bytes k (v mod 256 ^ k) in if littleEndian then bs else rev bs)"

fun store_bytes :: "byte list \<Rightarrow> nat \<Rightarrow> byte list \<Rightarrow> byte list" where
  "store_bytes view byteOffset [] = view"
| "store_bytes view byteOffset (b # bs) = store_bytes (view[byteOffset := b]) (Suc byteOffset) bs"

definition set_value :: "nat \<Rightarrow> byte list \<Rightarrow> nat \<Rightarrow> int \<Rightarrow> bool \<Rightarrow> byte list result" where
  "set_value k view byteOffset v littleEndian =
     (if byteOffset + k \<le> length view
      then Inr (store_bytes view byteOffset (raw_bytes k v littleEndian))
      else Inl RangeError)"

definition setUint8 :: "byte list \<Rightarrow> nat \<Rightarrow> int \<Rightarrow> byte list result" where
  "setUint8 view byteOffset v = set_value 1 view byteOffset v True"

definition setUint16 :: "byte list \<Rightarrow> nat \<Rightarrow> int \<Rightarrow> bool \<Rightarrow> byte list result" where
  "setUint16 view byteOffset v littleEndian = set_value 2 view byteOffset v littleEndian"

definition setInt16 :: "byte list \<Rightarrow> nat \<Rightarrow> int \<Rightarrow> bool \<Rightarrow> byte list result" where
  "setInt16 view byteOffset v littleEndian = set_value 2 view byteOffset v littleEndian"

definition setUint32 :: "byte list \<Rightarrow> nat \<Rightarrow> int \<Rightarrow> bool \<Rightarrow> byte list result" where
  "setUint32 view byteOffset v littleEndian = set_value 4 view byteOffset v littleEndian"

subsection \<open>\<open>writeString\<close>\<close>

function writeString_loop :: "byte list \<Rightarrow> nat \<Rightarrow> string \<Rightarrow> nat \<Rightarrow> byte list result" where
  "writeString_loop view offset string i =
     (if i < length string
      then and_then (setUint8 view (offset + i) (of_char (string ! i)))
             (\<lambda>view'. writeString_loop view' offset string (Suc i))
      else Inr view)"
  by pat_completeness auto
termination
  by (relation "measure (\<lambda>(view, offset, string, i). length string - i)") auto

definition writeString :: "byte list \<Rightarrow> nat \<Rightarrow> string \<Rightarrow> byte list result" where
  "writeString view offset string = writeString_loop view offset string 0"

subsection \<open>\<open>encodeWAV\<close>\<close>

text \<open>
  A \<open>Blob\<close> is its bytes and its media type. The body of \<open>encodeWAV\<close> is modelled in
  the order of the source: the zero-filled buffer of line 15, the header statements of
  lines 18 to 35 (\<open>write_header\<close>), the sample loop of lines 38 to 40
  (\<open>write_samples\<close>), and the Blob of line 42 over the whole buffer.
\<close>

record blob =
  blob_bytes :: "byte list"
  blob_type :: string

text \<open>Lines 18 to 35: the RIFF header, the \<open>fmt\<close> chunk and the head of the data chunk.\<close>

definition write_header :: "byte list \<Rightarrow> nat \<Rightarrow> int \<Rightarrow> int \<Rightarrow> byte list result" where
  "write_header view0 samples_length sampleRate numChannels =
     and_then (writeString view0 0 ''RIFF'') (\<lambda>view.
     and_then (setUint32 view 4 (36 + int samples_length * 2) True) (\<lambda>view.
     and_then (writeString view 8 ''WAVE'') (\<lambda>view.
     and_then (writeString view 12 ''fmt '') (\<lambda>view.
     and_then (setUint32 view 16 16 True) (\<lambda>view.
     and_then (setUint16 view 20 1 True) (\<lambda>view.
     and_then (setUint16 view 22 numChannels True) (\<lambda>view.
     and_then (setUint32 view 24 sampleRate True) (\<lambda>view.
     and_then (setUint32 view 28 (sampleRate * numChannels * 2) True) (\<lambda>view.
     and_then (setUint16 view 32 (numChannels * 2) True) (\<lambda>view.
     and_then (setUint16 view 34 16 True) (\<lambda>view.
     and_then (writeString view 36 ''data'') (\<lambda>view.
     setUint32 view 40 (int samples_length * 2) True))))))))))))"

text \<open>Lines 38 to 40: \<open>view.setInt16(44 + i * 2, samples[i], true)\<close> for each index.\<close>

function write_samples :: "byte list \<Rightarrow> 16 word list \<Rightarrow> nat \<Rightarrow> byte list result" where
  "write_samples view samples i =
     (if i < length samples
      then and_then (setInt16 view (44 + i * 2) (sint (samples ! i)) True)
             (\<lambda>view'. write_samples view' samples (Suc i))
      else Inr view)"
  by pat_completeness auto
termination
  by (relation "measure (\<lambda>(view, samples, i). length samples - i)") auto

definition encodeWAV :: "16 word list \<Rightarrow> int \<Rightarrow> int \<Rightarrow> blob result" where
  "encodeWAV samples sampleRate numChannels =
     (let buffer = replicate (44 + length samples * 2) 0 in
      and_then (write_header buffer (length samples) sampleRate numChannels) (\<lambda>view.
      and_then (write_samples view samples 0) (\<lambda>view.
      Inr \<lparr>blob_bytes = view, blob_type = ''audio/wav''\<rparr>)))"

subsection \<open>\<open>new Int16Array(rawData.buffer)\<close> and \<open>createWavBlob\<close>\<close>

text \<open>
  The constructor throws \<open>RangeError\<close> when the byte length of the buffer is not a
  multiple of the element size 2; otherwise element \<open>i\<close> is made of bytes \<open>2 * i\<close> and
  \<open>2 * i + 1\<close>, in the byte order of the host.
\<close>

datatype byte_order = LittleEndian | BigEndian

definition int16_of_bytes :: "byte_order \<Rightarrow> byte \<Rightarrow> byte \<Rightarrow> 16 word" where
  "int16_of_bytes host b0 b1 =
     (case host of
        LittleEndian \<Rightarrow> word_of_int (uint b0 + 256 * uint b1)
      | BigEndian \<Rightarrow> word_of_int (uint b1 + 256 * uint b0))"

fun int16_elements :: "byte_order \<Rightarrow> byte list \<Rightarrow> 16 word list" where
  "int16_elements host (b0 # b1 # rest) = int16_of_bytes host b0 b1 # int16_elements host rest"
| "int16_elements host _ = []"

definition Int16Array :: "byte_order \<Rightarrow> byte list \<Rightarrow> 16 word list result" where
  "Int16Array host buffer =
     (if length buffer mod 2 \<noteq> 0 then Inl RangeError
      else Inr (int16_elements host buffer))"

definition createWavBlob :: "byte_order \<Rightarrow> string \<Rightarrow> blob result" where
  "createWavBlob host base64Audio =
     and_then (decode base64Audio) (\<lambda>rawData.
     and_then (Int16Array host rawData) (\<lambda>pcmData.
       let sampleRate = 24000;
           numChannels = 1
       in encodeWAV pcmData sampleRate numChannels))"

subsection \<open>Vocabulary of the statements\<close>

text \<open>
  The statements below speak of the bytes \<open>off\<close> to \<open>off + k - 1\<close> of a buffer
  (\<open>bytes_at\<close>), of the unsigned number that a byte sequence spells least significant
  byte first (\<open>read_le\<close>), and of the character codes of a string (\<open>char_bytes\<close>).
  \<open>sample_bytes\<close> names the two bytes that the sample loop stores for one sample and
  \<open>header_bytes\<close> the 44 bytes that the header statements store, field after field.
\<close>

definition bytes_at :: "byte list \<Rightarrow> nat \<Rightarrow> nat \<Rightarrow> byte list" where
  "bytes_at bs off k = take k (drop off bs)"

definition read_le :: "byte list \<Rightarrow> int" where
  "read_le bs = foldr (\<lambda>b acc. uint b + 256 * acc) bs 0"

definition char_bytes :: "string \<Rightarrow> byte list" where
  "char_bytes s = map (\<lambda>c. word_of_nat (of_char c)) s"

definition sample_bytes :: "16 word \<Rightarrow> byte list" where
  "sample_bytes w = raw_bytes 2 (sint w) True"

definition header_bytes :: "nat \<Rightarrow> int \<Rightarrow> int \<Rightarrow> byte list" where
  "header_bytes n sampleRate numChannels =
     char_bytes ''RIFF'' @ raw_bytes 4 (36 + int n * 2) True @ char_bytes ''WAVE'' @
     char_bytes ''fmt '' @ raw_bytes 4 16 True @ raw_bytes 2 1 True @
     raw_bytes 2 numChannels True @ raw_bytes 4 sampleRate True @
     raw_bytes 4 (sampleRate * numChannels * 2) True @ raw_bytes 2 (numChannels * 2) True @
     raw_bytes 2 16 True @ char_bytes ''data'' @ raw_bytes 4 (int n * 2) True"

text \<open>The whole pipeline with the format left open: decode, reinterpret, assemble.\<close>

definition encode_base64 :: "byte_order \<Rightarrow> string \<Rightarrow> int \<Rightarrow> int \<Rightarrow> blob result" where
  "encode_base64 host base64 sampleRate numChannels =
     and_then (decode base64) (\<lambda>rawData.
     and_then (Int16Array host rawData) (\<lambda>pcmData.
       encodeWAV pcmData sampleRate numChannels))"

declare decode_loop.simps [simp del]
declare writeString_loop.simps [simp del]
declare write_samples.simps [simp del]

section \<open>Auxiliary lemmas\<close>

lemma and_then_Inr: "and_then (Inr v) f = f v"
  by (simp add: and_then_def)

lemma and_then_Inl: "and_then (Inl e) f = Inl e"
  by (simp add: and_then_def)

lemma length_le_bytes: "length (le_bytes k u) = k"
  by (induction k arbitrary: u) simp_all

lemma length_raw_bytes: "length (raw_bytes k v le) = k"
  by (simp add: raw_bytes_def Let_def length_le_bytes)

lemma length_store_bytes: "length (store_bytes view off bs) = length view"
  by (induction bs arbitrary: view off) simp_all

lemma store_bytes_eq:
  "off + length bs \<le> length view \<Longrightarrow>
   store_bytes view off bs = take off view @ bs @ drop (off + length bs) view"
proof (induction bs arbitrary: view off)
  case Nil
  then show ?case by simp
next
  case (Cons b bs)
  from Cons.prems have lt: "off < length view" by simp
  have "store_bytes (view[off := b]) (Suc off) bs =
        take (Suc off) (view[off := b]) @ bs @ drop (Suc off + length bs) (view[off := b])"
    using Cons.prems by (intro Cons.IH) simp
  also have "take (Suc off) (view[off := b]) = take off view @ [b]"
    using lt by (simp add: take_Suc_conv_app_nth)
  also have "drop (Suc off + length bs) (view[off := b]) = drop (Suc off + length bs) view"
    by simp
  finally show ?case by simp
qed

lemma set_value_out_of_bounds:
  "length view < off + k \<Longrightarrow> set_value k view off v le = Inl RangeError"
  by (simp add: set_value_def)

lemma set_value_eq:
  "off + k \<le> length view \<Longrightarrow>
   set_value k view off v le = Inr (take off view @ raw_bytes k v le @ drop (off + k) view)"
  by (simp add: set_value_def store_bytes_eq length_raw_bytes)

lemma raw_bytes_char: "raw_bytes (Suc 0) (of_char c) True = [word_of_nat (of_char c)]"
  by (simp add: raw_bytes_def of_int_of_char of_nat_of_char)

lemma read_le_le_bytes: "read_le (le_bytes k u) = u mod 256 ^ k"
proof (induction k arbitrary: u)
  case 0
  show ?case by (simp add: read_le_def)
next
  case (Suc k)
  have "read_le (le_bytes (Suc k) u) = u mod 256 + 256 * read_le (le_bytes k (u div 256))"
    by (simp add: read_le_def uint_word_of_int)
  also have "\<dots> = u mod 256 + 256 * (u div 256 mod 256 ^ k)"
    by (simp add: Suc.IH)
  also have "\<dots> = u mod 256 ^ Suc k"
    by (simp add: zmod_zmult2_eq)
  finally show ?case .
qed

lemma read_le_raw_bytes: "read_le (raw_bytes k v True) = v mod 256 ^ k"
  by (simp add: raw_bytes_def read_le_le_bytes)

lemma drop_patch:
  "p + length mid \<le> q \<Longrightarrow> p + length mid \<le> length xs \<Longrightarrow>
   drop q (take p xs @ mid @ drop (p + length mid) xs) = drop q xs"
proof -
  assume a: "p + length mid \<le> q" "p + length mid \<le> length xs"
  then have "length (take p xs) = p" by simp
  then have "drop q (take p xs @ mid @ drop (p + length mid) xs) =
             drop (q - p - length mid) (drop (p + length mid) xs)"
    using a by simp
  also have "\<dots> = drop q xs"
    using a by simp
  finally show ?thesis .
qed

lemma take_patch:
  "p + length mid \<le> length xs \<Longrightarrow>
   take (p + length mid) (take p xs @ mid @ drop (p + length mid) xs) = take p xs @ mid"
  by simp


lemma writeString_loop_eq:
  "offset + length string \<le> length view \<Longrightarrow> i \<le> length string \<Longrightarrow>
   writeString_loop view offset string i =
     Inr (take (offset + i) view @ char_bytes (drop i string) @
          drop (offset + length string) view)"
proof (induction view offset string i rule: writeString_loop.induct)
  case (1 view offset string i)
  show ?case
  proof (cases "i < length string")
    case False
    with "1.prems" have "i = length string" by simp
    then show ?thesis
      by (subst writeString_loop.simps) (simp add: char_bytes_def)
  next
    case True
    define b :: byte where "b = word_of_nat (of_char (string ! i))"
    define view' where "view' = take (offset + i) view @ [b] @ drop (offset + i + 1) view"
    have len: "length view' = length view"
      using True "1.prems" by (simp add: view'_def)
    have step: "setUint8 view (offset + i) (of_char (string ! i)) = Inr view'"
      using True "1.prems"
      by (simp add: setUint8_def set_value_eq raw_bytes_char view'_def b_def)
    have "writeString_loop view offset string i = writeString_loop view' offset string (Suc i)"
      using True by (subst writeString_loop.simps) (simp add: step and_then_Inr)
    also have "\<dots> = Inr (take (offset + Suc i) view' @ char_bytes (drop (Suc i) string) @
          drop (offset + length string) view')"
      using True "1.prems" len by (intro "1.IH") simp_all
    also have "take (offset + Suc i) view' = take (offset + i) view @ [b]"
      using True "1.prems" take_patch [of "offset + i" "[b]" view] by (simp add: view'_def)
    also have "drop (offset + length string) view' = drop (offset + length string) view"
      using True "1.prems" drop_patch [of "offset + i" "[b]" "offset + length string" view]
      by (simp add: view'_def)
    also have "(take (offset + i) view @ [b]) @ char_bytes (drop (Suc i) string) @
          drop (offset + length string) view =
          take (offset + i) view @ char_bytes (drop i string) @
          drop (offset + length string) view"
      using True by (simp add: char_bytes_def b_def flip: Cons_nth_drop_Suc)
    finally show ?thesis .
  qed
qed

lemma writeString_eq:
  "offset + length string \<le> length view \<Longrightarrow>
   writeString view offset string =
     Inr (take offset view @ char_bytes string @ drop (offset + length string) view)"
  using writeString_loop_eq [of offset string view 0] by (simp add: writeString_def)

lemma length_char_bytes: "length (char_bytes s) = length s"
  by (simp add: char_bytes_def)

lemma length_header_bytes: "length (header_bytes n sr nc) = 44"
  by (simp add: header_bytes_def length_raw_bytes length_char_bytes)

lemma write_header_eq:
  assumes "44 \<le> length view"
  shows "write_header view n sampleRate numChannels =
           Inr (header_bytes n sampleRate numChannels @ drop 44 view)"
  using assms
  by (simp add: write_header_def header_bytes_def writeString_eq setUint32_def setUint16_def
      set_value_eq and_then_Inr length_raw_bytes length_char_bytes)

lemma length_sample_bytes: "length (sample_bytes w) = 2"
  by (simp add: sample_bytes_def length_raw_bytes)

lemma length_concat_sample_bytes: "length (concat (map sample_bytes ws)) = 2 * length ws"
  by (induction ws) (simp_all add: length_sample_bytes)

lemma write_samples_eq:
  "length view = 44 + 2 * length samples \<Longrightarrow> i \<le> length samples \<Longrightarrow>
   write_samples view samples i =
     Inr (take (44 + 2 * i) view @ concat (map sample_bytes (drop i samples)))"
proof (induction view samples i rule: write_samples.induct)
  case (1 view samples i)
  show ?case
  proof (cases "i < length samples")
    case False
    with "1.prems" have "i = length samples" by simp
    with "1.prems" show ?thesis
      by (subst write_samples.simps) simp
  next
    case True
    define bs where "bs = sample_bytes (samples ! i)"
    define view' where "view' = take (44 + 2 * i) view @ bs @ drop (44 + 2 * i + length bs) view"
    have lbs: "length bs = 2" by (simp add: bs_def length_sample_bytes)
    have len: "length view' = length view"
      using True "1.prems" by (simp add: view'_def lbs)
    have step: "setInt16 view (44 + i * 2) (sint (samples ! i)) True = Inr view'"
      using True "1.prems"
      by (simp add: setInt16_def set_value_eq view'_def bs_def sample_bytes_def lbs
          length_raw_bytes mult.commute)
    have "write_samples view samples i = write_samples view' samples (Suc i)"
      using True by (subst write_samples.simps) (simp add: step and_then_Inr)
    also have "\<dots> = Inr (take (44 + 2 * Suc i) view' @
                 concat (map sample_bytes (drop (Suc i) samples)))"
      using True "1.prems" len by (intro "1.IH") simp_all
    also have "take (44 + 2 * Suc i) view' = take (44 + 2 * i) view @ bs"
      using True "1.prems" take_patch [of "44 + 2 * i" bs view] by (simp add: view'_def lbs)
    also have "(take (44 + 2 * i) view @ bs) @ concat (map sample_bytes (drop (Suc i) samples)) =
          take (44 + 2 * i) view @ concat (map sample_bytes (drop i samples))"
      using True by (simp add: bs_def flip: Cons_nth_drop_Suc)
    finally show ?thesis .
  qed
qed

lemma encodeWAV_eq:
  "encodeWAV samples sampleRate numChannels =
     Inr \<lparr>blob_bytes = header_bytes (length samples) sampleRate numChannels @
                        concat (map sample_bytes samples),
          blob_type = ''audio/wav''\<rparr>"
proof -
  define buffer :: "byte list" where "buffer = replicate (44 + length samples * 2) 0"
  define view where
    "view = header_bytes (length samples) sampleRate numChannels @ drop 44 buffer"
  have hdr: "write_header buffer (length samples) sampleRate numChannels = Inr view"
    by (simp add: view_def buffer_def write_header_eq)
  have len: "length view = 44 + 2 * length samples"
    by (simp add: view_def buffer_def length_header_bytes)
  have "write_samples view samples 0 =
          Inr (take 44 view @ concat (map sample_bytes samples))"
    using write_samples_eq [OF len, of 0] by simp
  moreover have "take 44 view = header_bytes (length samples) sampleRate numChannels"
    by (simp add: view_def length_header_bytes)
  ultimately show ?thesis
    unfolding encodeWAV_def Let_def buffer_def [symmetric]
    by (simp add: hdr and_then_Inr)
qed

lemma decode_loop_eq:
  "length bytes = length binaryString \<Longrightarrow> i \<le> length binaryString \<Longrightarrow>
   decode_loop binaryString (length binaryString) i bytes =
     take i bytes @ char_bytes (drop i binaryString)"
proof (induction "length binaryString - i" arbitrary: i bytes)
  case 0
  then show ?case
    by (subst decode_loop.simps) (simp add: char_bytes_def)
next
  case (Suc d)
  then have lt: "i < length binaryString" by simp
  define b :: byte where "b = word_of_nat (of_char (binaryString ! i))"
  have "decode_loop binaryString (length binaryString) i bytes =
        decode_loop binaryString (length binaryString) (Suc i) (bytes[i := b])"
    using lt by (subst decode_loop.simps) (simp add: b_def)
  also have "\<dots> = take (Suc i) (bytes[i := b]) @ char_bytes (drop (Suc i) binaryString)"
    using Suc lt by (intro Suc.hyps(1)) simp_all
  also have "take (Suc i) (bytes[i := b]) = take i bytes @ [b]"
    using lt Suc.prems by (simp add: take_Suc_conv_app_nth)
  also have "(take i bytes @ [b]) @ char_bytes (drop (Suc i) binaryString) =
             take i bytes @ char_bytes (drop i binaryString)"
    using lt by (simp add: char_bytes_def b_def flip: Cons_nth_drop_Suc)
  finally show ?case .
qed

lemma decode_eq:
  "decode base64 = and_then (atob base64) (\<lambda>binaryString. Inr (char_bytes binaryString))"
proof (cases "atob base64")
  case (Inl e)
  then show ?thesis by (simp add: decode_def and_then_Inl)
next
  case (Inr s)
  have "decode_loop s (length s) 0 (replicate (length s) 0) = char_bytes s"
    using decode_loop_eq [of "replicate (length s) 0" s 0] by simp
  with Inr show ?thesis by (simp add: decode_def and_then_Inr)
qed



lemma byte_bound: "0 \<le> uint (b :: byte) \<and> uint b < 256"
  using uint_lt2p [of b] by simp

lemma pair_bitwise:
  "(word_of_int (uint (lo :: byte) + 256 * uint (hi :: byte)) :: 16 word) =
     push_bit 8 (ucast hi) OR ucast lo"
proof -
  have disj: "(ucast lo :: 16 word) AND push_bit 8 (ucast hi) = 0"
    by (rule bit_eqI) (auto simp add: bit_simps dest: bit_imp_le_length)
  have "(word_of_int (uint lo + 256 * uint hi) :: 16 word) = ucast lo + push_bit 8 (ucast hi)"
    by (simp add: push_bit_eq_mult)
  also have "\<dots> = ucast lo OR push_bit 8 (ucast hi)"
    using disj by (rule disjunctive_add_eq_or)
  finally show ?thesis by (simp add: or.commute)
qed

lemma sint_mod_16: "sint (w :: 16 word) mod 65536 = uint w"
  by (simp add: uint_sint take_bit_eq_mod)

lemma sample_bytes_uint: "sample_bytes w = le_bytes 2 (uint w)"
  by (simp add: sample_bytes_def raw_bytes_def sint_mod_16)

lemma uint_pair:
  "uint (word_of_int (uint (lo :: byte) + 256 * uint (hi :: byte)) :: 16 word) =
     uint lo + 256 * uint hi"
proof -
  have "0 \<le> uint lo + 256 * uint hi" "uint lo + 256 * uint hi < 65536"
    using byte_bound [of lo] byte_bound [of hi] by simp_all
  then show ?thesis by (simp only: uint_word_of_int) simp
qed

lemma le_bytes_pair:
  "le_bytes 2 (uint (lo :: byte) + 256 * uint (hi :: byte)) = [lo, hi]"
proof -
  have "le_bytes 2 (uint lo + 256 * uint hi) =
        [word_of_int ((uint lo + 256 * uint hi) mod 256),
         word_of_int ((uint lo + 256 * uint hi) div 256 mod 256)]"
    by (simp add: numeral_2_eq_2)
  also have "(uint lo + 256 * uint hi) mod 256 = uint lo"
    using byte_bound [of lo] by simp
  also have "(uint lo + 256 * uint hi) div 256 mod 256 = uint hi"
    using byte_bound [of lo] byte_bound [of hi] by simp
  finally show ?thesis by simp
qed

lemma sint_16_cases:
  "sint (w :: 16 word) = (if uint w < 32768 then uint w else uint w - 65536)"
proof -
  have r: "0 \<le> uint w" "uint w < 65536"
    using uint_lt2p [of w] by simp_all
  have s: "sint w = (uint w + 32768) mod 65536 - 32768"
    by (simp add: sint_uint signed_take_bit_eq_take_bit_shift take_bit_eq_mod)
  show ?thesis
  proof (cases "uint w < 32768")
    case True
    then have "(uint w + 32768) mod 65536 = uint w + 32768"
      using r by (intro mod_pos_pos_trivial) simp_all
    with True s show ?thesis by simp
  next
    case False
    have e: "uint w + 32768 = uint w - 32768 + 65536" by arith
    have "(uint w + 32768) mod 65536 = (uint w - 32768 + 65536) mod 65536"
      by (rule arg_cong [where f = "\<lambda>x. x mod 65536"]) (rule e)
    also have "\<dots> = (uint w - 32768) mod 65536" by (simp only: mod_add_self2)
    also have "\<dots> = uint w - 32768"
      using False r by (intro mod_pos_pos_trivial) simp_all
    finally show ?thesis using False s by simp
  qed
qed

lemma int16_of_bytes_le:
  "int16_of_bytes LittleEndian lo hi = word_of_int (uint lo + 256 * uint hi)"
  by (simp add: int16_of_bytes_def)

lemma sample_bytes_pair: "sample_bytes (int16_of_bytes LittleEndian lo hi) = [lo, hi]"
  by (simp only: int16_of_bytes_le sample_bytes_uint uint_pair le_bytes_pair)

lemma length_int16_elements: "length (int16_elements host bs) = length bs div 2"
  by (induction host bs rule: int16_elements.induct) simp_all

lemma int16_roundtrip:
  "even (length raw) \<Longrightarrow> concat (map sample_bytes (int16_elements LittleEndian raw)) = raw"
proof (induction "LittleEndian" raw rule: int16_elements.induct)
  case (1 b0 b1 rest)
  then show ?case by (simp add: sample_bytes_pair)
qed simp_all

lemma int16_elements_nth:
  "i < length raw div 2 \<Longrightarrow>
   int16_elements host raw ! i = int16_of_bytes host (raw ! (2 * i)) (raw ! (2 * i + 1))"
proof (induction host raw arbitrary: i rule: int16_elements.induct)
  case (1 host b0 b1 rest)
  then show ?case by (cases i) simp_all
qed simp_all

lemma decode_known_vector: "decode ''AQACAAMABAA='' = Inr [1, 0, 2, 0, 3, 0, 4, 0]"
  by code_simp

lemma decode_three_bytes: "decode ''AQID'' = Inr [1, 2, 3]"
  by code_simp

lemma Int16Array_known_vector: "Int16Array LittleEndian [1, 0, 2, 0, 3, 0, 4, 0] = Inr [1, 2, 3, 4]"
  by code_simp

lemma Int16Array_endianness: "Int16Array LittleEndian [0x34, 0x12] = Inr [4660]"
  by code_simp

lemma createWavBlob_known_vector:
  "createWavBlob LittleEndian ''AQACAAMABAA='' =
     Inr \<lparr>blob_bytes =
            [82, 73, 70, 70, 44, 0, 0, 0, 87, 65, 86, 69, 102, 109, 116, 32, 16, 0, 0, 0,
             1, 0, 1, 0, 192, 93, 0, 0, 128, 187, 0, 0, 2, 0, 16, 0, 100, 97, 116, 97,
             8, 0, 0, 0, 1, 0, 2, 0, 3, 0, 4, 0],
          blob_type = ''audio/wav''\<rparr>"
  by code_simp

lemma Int16Array_even:
  "even (length rawData) \<Longrightarrow> Int16Array host rawData = Inr (int16_elements host rawData)"
  by (simp add: Int16Array_def even_iff_mod_2_eq_zero)

lemma Int16Array_odd: "odd (length rawData) \<Longrightarrow> Int16Array host rawData = Inl RangeError"
  by (simp add: Int16Array_def odd_iff_mod_2_eq_one)

lemma createWavBlob_eq: "createWavBlob host base64Audio = encode_base64 host base64Audio 24000 1"
  by (simp add: createWavBlob_def encode_base64_def)

lemma bytes_at_append:
  "off + k \<le> length xs \<Longrightarrow> bytes_at (xs @ ys) off k = bytes_at xs off k"
  by (simp add: bytes_at_def)

lemma header_fields:
  "bytes_at (header_bytes n sr nc) 0 4 = char_bytes ''RIFF''"
  "bytes_at (header_bytes n sr nc) 4 4 = raw_bytes 4 (36 + int n * 2) True"
  "bytes_at (header_bytes n sr nc) 8 4 = char_bytes ''WAVE''"
  "bytes_at (header_bytes n sr nc) 12 4 = char_bytes ''fmt ''"
  "bytes_at (header_bytes n sr nc) 16 4 = raw_bytes 4 16 True"
  "bytes_at (header_bytes n sr nc) 20 2 = raw_bytes 2 1 True"
  "bytes_at (header_bytes n sr nc) 22 2 = raw_bytes 2 nc True"
  "bytes_at (header_bytes n sr nc) 24 4 = raw_bytes 4 sr True"
  "bytes_at (header_bytes n sr nc) 28 4 = raw_bytes 4 (sr * nc * 2) True"
  "bytes_at (header_bytes n sr nc) 32 2 = raw_bytes 2 (nc * 2) True"
  "bytes_at (header_bytes n sr nc) 34 2 = raw_bytes 2 16 True"
  "bytes_at (header_bytes n sr nc) 36 4 = char_bytes ''data''"
  "bytes_at (header_bytes n sr nc) 40 4 = raw_bytes 4 (int n * 2) True"
  by (simp_all add: bytes_at_def header_bytes_def length_raw_bytes length_char_bytes)

lemma encodeWAV_total: "\<not> isl (encodeWAV samples sampleRate numChannels)"
  by (simp add: encodeWAV_eq)

lemma encodeWAV_bytes:
  "blob_bytes (projr (encodeWAV samples sampleRate numChannels)) =
     header_bytes (length samples) sampleRate numChannels @ concat (map sample_bytes samples)"
  by (simp add: encodeWAV_eq)

lemma encodeWAV_size_fields:
  "length (blob_bytes (projr (encodeWAV samples sampleRate numChannels))) =
     44 + 2 * length samples"
  "read_le (bytes_at (blob_bytes (projr (encodeWAV samples sampleRate numChannels))) 4 4) =
     (36 + 2 * int (length samples)) mod 2 ^ 32"
  "read_le (bytes_at (blob_bytes (projr (encodeWAV samples sampleRate numChannels))) 40 4) =
     (2 * int (length samples)) mod 2 ^ 32"
  by (simp_all add: encodeWAV_bytes bytes_at_append length_header_bytes header_fields
      read_le_raw_bytes length_concat_sample_bytes mult.commute)

lemma take_2_drop:
  "Suc j < length xs \<Longrightarrow> take 2 (drop j xs) = [xs ! j, xs ! Suc j]"
proof -
  assume a: "Suc j < length xs"
  then have "drop j xs = xs ! j # xs ! Suc j # drop (Suc (Suc j)) xs"
    by (simp add: Cons_nth_drop_Suc)
  then show ?thesis by (simp add: numeral_2_eq_2)
qed

lemma read_le_pair: "read_le [lo, hi] = uint lo + 256 * uint hi"
  by (simp add: read_le_def)

lemma sint_16_range: "- 32768 \<le> sint (w :: 16 word) \<and> sint w \<le> 32767"
  using sint_ge [of w] sint_lt [of w] by simp

lemma sample_position:
  assumes "even (length rawData)" and "i < length rawData div 2"
  shows "bytes_at (header_bytes n sampleRate numChannels @ rawData) (44 + 2 * i) 2 =
           [rawData ! (2 * i), rawData ! (2 * i + 1)]"
proof -
  from assms have "Suc (2 * i) < length rawData" by presburger
  then have "take 2 (drop (2 * i) rawData) = [rawData ! (2 * i), rawData ! Suc (2 * i)]"
    by (rule take_2_drop)
  then show ?thesis
    by (simp add: bytes_at_def length_header_bytes)
qed

lemma decode_sample_34_12: "decode ''NBI='' = Inr [0x34, 0x12]"
  by code_simp

section \<open>The claims\<close>

subsection \<open>C1: the 44 header bytes\<close>

text \<open>
  Claim C1. For every sample array, sample rate and channel count, \<open>encodeWAV\<close>
  returns a buffer whose first 44 bytes are the canonical RIFF/WAVE/PCM header: bytes
  0-3 \<open>RIFF\<close>, bytes 4-7 the little-endian u32 \<open>36 + dataBytes\<close>, bytes 8-11
  \<open>WAVE\<close>, bytes 12-15 \<open>fmt \<close>, bytes 16-19 the u32 16, bytes 20-21 the u16 1,
  bytes 22-23 the u16 \<open>numChannels\<close>, bytes 24-27 the u32 \<open>sampleRate\<close>, bytes 28-31
  the u32 \<open>sampleRate * numChannels * 2\<close>, bytes 32-33 the u16 \<open>numChannels * 2\<close>,
  bytes 34-35 the u16 16, bytes 36-39 \<open>data\<close>, bytes 40-43 the u32 \<open>dataBytes\<close>,
  where \<open>dataBytes = sampleCount * 2\<close>. A field holds its value as the setter converts
  it, that is modulo \<open>2 ^ 32\<close> or \<open>2 ^ 16\<close>, hence the value itself when it fits.
  The hypothesis keeps the byte-rate product in the range where the double arithmetic
  of the source is exact.
\<close>

theorem encodeWAV_header_layout:
  assumes "\<bar>sampleRate * numChannels\<bar> \<le> 2 ^ 53"
  shows "\<exists>b. encodeWAV samples sampleRate numChannels = Inr b \<and>
    length (blob_bytes b) = 44 + 2 * length samples \<and>
    bytes_at (blob_bytes b) 0 4 = char_bytes ''RIFF'' \<and>
    read_le (bytes_at (blob_bytes b) 4 4) = (36 + 2 * int (length samples)) mod 2 ^ 32 \<and>
    bytes_at (blob_bytes b) 8 4 = char_bytes ''WAVE'' \<and>
    bytes_at (blob_bytes b) 12 4 = char_bytes ''fmt '' \<and>
    read_le (bytes_at (blob_bytes b) 16 4) = 16 \<and>
    read_le (bytes_at (blob_bytes b) 20 2) = 1 \<and>
    read_le (bytes_at (blob_bytes b) 22 2) = numChannels mod 2 ^ 16 \<and>
    read_le (bytes_at (blob_bytes b) 24 4) = sampleRate mod 2 ^ 32 \<and>
    read_le (bytes_at (blob_bytes b) 28 4) = (sampleRate * numChannels * 2) mod 2 ^ 32 \<and>
    read_le (bytes_at (blob_bytes b) 32 2) = (numChannels * 2) mod 2 ^ 16 \<and>
    read_le (bytes_at (blob_bytes b) 34 2) = 16 \<and>
    bytes_at (blob_bytes b) 36 4 = char_bytes ''data'' \<and>
    read_le (bytes_at (blob_bytes b) 40 4) = (2 * int (length samples)) mod 2 ^ 32"
  by (simp add: encodeWAV_eq bytes_at_append length_header_bytes header_fields
      read_le_raw_bytes length_concat_sample_bytes mult.commute)

text \<open>
  The instance of the claim's last sentence: no samples, 24000 Hz and one channel give
  exactly 44 bytes with ChunkSize 36 and Subchunk2Size 0.
\<close>

theorem encodeWAV_header_layout_witness:
  "\<bar>(24000::int) * 1\<bar> \<le> 2 ^ 53 \<and>
   (\<exists>b. encodeWAV [] 24000 1 = Inr b \<and>
    length (blob_bytes b) = 44 \<and>
    bytes_at (blob_bytes b) 0 4 = char_bytes ''RIFF'' \<and>
    read_le (bytes_at (blob_bytes b) 4 4) = 36 \<and>
    bytes_at (blob_bytes b) 8 4 = char_bytes ''WAVE'' \<and>
    bytes_at (blob_bytes b) 12 4 = char_bytes ''fmt '' \<and>
    bytes_at (blob_bytes b) 36 4 = char_bytes ''data'' \<and>
    read_le (bytes_at (blob_bytes b) 40 4) = 0)"
proof -
  have h: "\<bar>(24000::int) * 1\<bar> \<le> 2 ^ 53" by simp
  from encodeWAV_header_layout [OF h, of "[]"] h show ?thesis
    by auto
qed

subsection \<open>C2: the known vector\<close>

text \<open>
  Claim C2. The base64 input \<open>AQACAAMABAA=\<close> decodes to the bytes
  01 00 02 00 03 00 04 00, these give the samples 1, 2, 3, 4, and the WAV output has 52
  bytes, Subchunk2Size 8 and the last 8 bytes 01 00 02 00 03 00 04 00. The code decodes
  the bytes as stated, but line 54 hands them to \<open>new Int16Array\<close>, which reads each
  pair in the byte order of the host, while line 39 writes each sample with the
  little-endian flag set. On a big-endian host the samples are 256, 512, 768, 1024 and
  the last 8 bytes of the output are 00 01 00 02 00 03 00 04.
\<close>

theorem known_vector_big_endian_host:
  "decode ''AQACAAMABAA='' = Inr [1, 0, 2, 0, 3, 0, 4, 0] \<and>
   Int16Array BigEndian [1, 0, 2, 0, 3, 0, 4, 0] = Inr [256, 512, 768, 1024] \<and>
   createWavBlob BigEndian ''AQACAAMABAA='' =
     Inr \<lparr>blob_bytes =
            [82, 73, 70, 70, 44, 0, 0, 0, 87, 65, 86, 69, 102, 109, 116, 32, 16, 0, 0, 0,
             1, 0, 1, 0, 192, 93, 0, 0, 128, 187, 0, 0, 2, 0, 16, 0, 100, 97, 116, 97,
             8, 0, 0, 0, 0, 1, 0, 2, 0, 3, 0, 4],
          blob_type = ''audio/wav''\<rparr>"
  by code_simp

text \<open>On a little-endian host the vector comes out as stated.\<close>

lemma known_vector_little_endian_host:
  "decode ''AQACAAMABAA='' = Inr [1, 0, 2, 0, 3, 0, 4, 0] \<and>
   Int16Array LittleEndian [1, 0, 2, 0, 3, 0, 4, 0] = Inr [1, 2, 3, 4] \<and>
   (\<exists>b. createWavBlob LittleEndian ''AQACAAMABAA='' = Inr b \<and>
        length (blob_bytes b) = 52 \<and>
        read_le (bytes_at (blob_bytes b) 40 4) = 8 \<and>
        drop 44 (blob_bytes b) = [1, 0, 2, 0, 3, 0, 4, 0])"
  by (simp add: decode_known_vector Int16Array_known_vector createWavBlob_known_vector
      bytes_at_def read_le_def)

subsection \<open>C3: the length of the output\<close>

text \<open>
  Claim C3. For every valid input, that is a base64 string whose decoded byte length is
  even, the output has \<open>44 + 2 * sampleCount\<close> bytes, where \<open>sampleCount\<close> is the
  length of the sample buffer and equals half the decoded byte length: a 44-byte header
  followed by two bytes for each sample.
\<close>

theorem wav_length:
  assumes "decode base64Audio = Inr rawData" and "even (length rawData)"
  shows "\<exists>pcmData b. Int16Array host rawData = Inr pcmData \<and>
           length pcmData = length rawData div 2 \<and>
           createWavBlob host base64Audio = Inr b \<and>
           length (blob_bytes b) = 44 + 2 * length pcmData \<and>
           length (blob_bytes b) = 44 + 2 * (length rawData div 2)"
  using assms
  by (simp add: createWavBlob_def and_then_Inr Int16Array_even encodeWAV_eq
      length_header_bytes length_concat_sample_bytes length_int16_elements)

theorem wav_length_witness:
  "decode ''AQACAAMABAA='' = Inr [1, 0, 2, 0, 3, 0, 4, 0] \<and>
   even (length [1, 0, 2, 0, 3, 0, 4, 0 :: byte]) \<and>
   (\<exists>pcmData b. Int16Array LittleEndian [1, 0, 2, 0, 3, 0, 4, 0] = Inr pcmData \<and>
      length pcmData = 4 \<and>
      createWavBlob LittleEndian ''AQACAAMABAA='' = Inr b \<and>
      length (blob_bytes b) = 52)"
proof -
  have e: "even (length [1, 0, 2, 0, 3, 0, 4, 0 :: byte])" by simp
  from wav_length [OF decode_known_vector e, of LittleEndian]
  obtain pcmData b where
    "Int16Array LittleEndian [1, 0, 2, 0, 3, 0, 4, 0] = Inr pcmData"
    "length pcmData = length [1, 0, 2, 0, 3, 0, 4, 0 :: byte] div 2"
    "createWavBlob LittleEndian ''AQACAAMABAA='' = Inr b"
    "length (blob_bytes b) = 44 + 2 * length pcmData"
    by blast
  then have "Int16Array LittleEndian [1, 0, 2, 0, 3, 0, 4, 0] = Inr pcmData \<and>
      length pcmData = 4 \<and>
      createWavBlob LittleEndian ''AQACAAMABAA='' = Inr b \<and>
      length (blob_bytes b) = 52"
    by simp
  then show ?thesis using decode_known_vector e by blast
qed

subsection \<open>C4: odd byte lengths are rejected\<close>

text \<open>
  Claim C4. For every decoded byte buffer of odd length the reinterpretation as 16-bit
  samples fails, and so does the facade on an input that decodes to it: nothing is
  truncated or padded and no WAV is produced. The failure is the \<open>RangeError\<close> that
  the \<open>Int16Array\<close> constructor throws; the code has no error class of its own, and
  this exception is what the specification calls \<open>MalformedAudioError\<close>.
\<close>

theorem odd_length_rejected:
  assumes "odd (length rawData)"
  shows "Int16Array host rawData = Inl RangeError \<and>
         (decode base64Audio = Inr rawData \<longrightarrow>
            createWavBlob host base64Audio = Inl RangeError)"
  using assms
  by (simp add: createWavBlob_def and_then_Inr and_then_Inl Int16Array_odd)

theorem odd_length_rejected_witness:
  "odd (length [1, 2, 3 :: byte]) \<and>
   Int16Array LittleEndian [1, 2, 3] = Inl RangeError \<and>
   decode ''AQID'' = Inr [1, 2, 3] \<and>
   createWavBlob LittleEndian ''AQID'' = Inl RangeError"
  using odd_length_rejected [of "[1, 2, 3]" LittleEndian "''AQID''"] decode_three_bytes
  by simp

subsection \<open>C5: the format arguments are not validated\<close>

text \<open>
  Claim C5 says that \<open>encodeWAV\<close> fails with \<open>InvalidFormatError\<close> when the sample
  rate or the channel count is not positive. The code has no such check, nor any other
  validation: with both arguments 0 it returns a complete 44-byte header.
\<close>

theorem encodeWAV_zero_format_counterexample:
  "encodeWAV [] 0 0 =
     Inr \<lparr>blob_bytes =
            [82, 73, 70, 70, 36, 0, 0, 0, 87, 65, 86, 69, 102, 109, 116, 32, 16, 0, 0, 0,
             1, 0, 0, 0, 0, 0, 0, 0, 0, 0, 0, 0, 0, 0, 16, 0, 100, 97, 116, 97,
             0, 0, 0, 0],
          blob_type = ''audio/wav''\<rparr>"
  by code_simp

text \<open>
  Claim C5, amended. For every call of \<open>encodeWAV\<close> with a non-positive sample rate or
  a non-positive channel count the operation does not fail: it returns a buffer of
  \<open>44 + 2 * sampleCount\<close> bytes whose NumChannels and SampleRate fields hold the
  arguments modulo \<open>2 ^ 16\<close> and \<open>2 ^ 32\<close>.
\<close>

theorem encodeWAV_accepts_any_format:
  assumes "sampleRate \<le> 0 \<or> numChannels \<le> 0"
  shows "\<exists>b. encodeWAV samples sampleRate numChannels = Inr b \<and>
           length (blob_bytes b) = 44 + 2 * length samples \<and>
           read_le (bytes_at (blob_bytes b) 22 2) = numChannels mod 2 ^ 16 \<and>
           read_le (bytes_at (blob_bytes b) 24 4) = sampleRate mod 2 ^ 32"
  by (simp add: encodeWAV_eq bytes_at_append length_header_bytes header_fields
      read_le_raw_bytes length_concat_sample_bytes)

theorem encodeWAV_accepts_any_format_witness:
  "((0::int) \<le> 0 \<or> (0::int) \<le> 0) \<and>
   (\<exists>b. encodeWAV [] 0 0 = Inr b \<and> length (blob_bytes b) = 44 \<and>
        read_le (bytes_at (blob_bytes b) 22 2) = 0 \<and>
        read_le (bytes_at (blob_bytes b) 24 4) = 0)"
  using encodeWAV_accepts_any_format [of 0 0 "[]"] by simp

subsection \<open>C6: the byte order of the samples\<close>

text \<open>
  Claim C6. For every even-length byte buffer each pair of consecutive bytes
  \<open>(lo, hi)\<close> is the sample \<open>(hi << 8) | lo\<close>, read as two's complement, so that the
  bytes 34 12 (hexadecimal) are the sample 4660 and not 3412 hexadecimal; the samples are
  written after the header least significant byte first, in their order, and the data
  passes through unchanged. The code writes the samples that way (line 39 sets the
  little-endian flag), but it reads them with \<open>new Int16Array\<close> (line 54), which takes
  the byte order of the host. On a big-endian host the bytes 34 12 are the sample 3412
  hexadecimal, that is 13330, and the output holds them as 12 34.
\<close>

theorem samples_big_endian_host:
  "decode ''NBI='' = Inr [0x34, 0x12] \<and>
   Int16Array BigEndian [0x34, 0x12] = Inr [0x3412] \<and>
   sint (0x3412 :: 16 word) = 13330 \<and>
   createWavBlob BigEndian ''NBI='' =
     Inr \<lparr>blob_bytes =
            [82, 73, 70, 70, 38, 0, 0, 0, 87, 65, 86, 69, 102, 109, 116, 32, 16, 0, 0, 0,
             1, 0, 1, 0, 192, 93, 0, 0, 128, 187, 0, 0, 2, 0, 16, 0, 100, 97, 116, 97,
             2, 0, 0, 0, 0x12, 0x34],
          blob_type = ''audio/wav''\<rparr>"
  by code_simp

text \<open>
  On a little-endian host the code does all the claim says, for every even-length
  buffer, sample rate and channel count.
\<close>

lemma samples_little_endian_host:
  assumes "even (length rawData)"
  shows "\<exists>pcmData. Int16Array LittleEndian rawData = Inr pcmData \<and>
     length pcmData = length rawData div 2 \<and>
     (\<forall>i<length pcmData.
        pcmData ! i = push_bit 8 (ucast (rawData ! (2 * i + 1))) OR ucast (rawData ! (2 * i)) \<and>
        sint (pcmData ! i) =
          (let u = 256 * uint (rawData ! (2 * i + 1)) + uint (rawData ! (2 * i))
           in if u < 32768 then u else u - 65536) \<and>
        - 32768 \<le> sint (pcmData ! i) \<and> sint (pcmData ! i) \<le> 32767) \<and>
     (\<forall>sampleRate numChannels.
        \<exists>b. encodeWAV pcmData sampleRate numChannels = Inr b \<and>
            drop 44 (blob_bytes b) = rawData \<and>
            (\<forall>i<length pcmData.
               bytes_at (blob_bytes b) (44 + 2 * i) 2 =
                 [rawData ! (2 * i), rawData ! (2 * i + 1)] \<and>
               read_le (bytes_at (blob_bytes b) (44 + 2 * i) 2) = uint (pcmData ! i)))"
proof -
  define pcmData where "pcmData = int16_elements LittleEndian rawData"
  have arr: "Int16Array LittleEndian rawData = Inr pcmData"
    using assms by (simp add: pcmData_def Int16Array_even)
  have len: "length pcmData = length rawData div 2"
    by (simp add: pcmData_def length_int16_elements)
  have rt: "concat (map sample_bytes pcmData) = rawData"
    using assms by (simp add: pcmData_def int16_roundtrip)
  have elem: "pcmData ! i =
      word_of_int (uint (rawData ! (2 * i)) + 256 * uint (rawData ! (2 * i + 1)))"
    if "i < length pcmData" for i
    using that len by (simp add: pcmData_def int16_elements_nth int16_of_bytes_le)
  have val: "uint (pcmData ! i) = uint (rawData ! (2 * i)) + 256 * uint (rawData ! (2 * i + 1))"
    if "i < length pcmData" for i
    by (simp only: elem [OF that] uint_pair)
  have samples: "pcmData ! i =
        push_bit 8 (ucast (rawData ! (2 * i + 1))) OR ucast (rawData ! (2 * i)) \<and>
      sint (pcmData ! i) =
        (let u = 256 * uint (rawData ! (2 * i + 1)) + uint (rawData ! (2 * i))
         in if u < 32768 then u else u - 65536) \<and>
      - 32768 \<le> sint (pcmData ! i) \<and> sint (pcmData ! i) \<le> 32767"
    if "i < length pcmData" for i
  proof (intro conjI)
    show "pcmData ! i = push_bit 8 (ucast (rawData ! (2 * i + 1))) OR ucast (rawData ! (2 * i))"
      by (simp only: elem [OF that] pair_bitwise)
    show "sint (pcmData ! i) =
        (let u = 256 * uint (rawData ! (2 * i + 1)) + uint (rawData ! (2 * i))
         in if u < 32768 then u else u - 65536)"
      by (simp add: sint_16_cases [of "pcmData ! i"] val [OF that] Let_def add.commute)
    show "- 32768 \<le> sint (pcmData ! i)" "sint (pcmData ! i) \<le> 32767"
      using sint_16_range [of "pcmData ! i"] by simp_all
  qed
  have out: "\<exists>b. encodeWAV pcmData sampleRate numChannels = Inr b \<and>
            drop 44 (blob_bytes b) = rawData \<and>
            (\<forall>i<length pcmData.
               bytes_at (blob_bytes b) (44 + 2 * i) 2 =
                 [rawData ! (2 * i), rawData ! (2 * i + 1)] \<and>
               read_le (bytes_at (blob_bytes b) (44 + 2 * i) 2) = uint (pcmData ! i))"
    for sampleRate numChannels
  proof -
    define b where "b = \<lparr>blob_bytes =
        header_bytes (length pcmData) sampleRate numChannels @ rawData,
        blob_type = ''audio/wav''\<rparr>"
    have "encodeWAV pcmData sampleRate numChannels = Inr b"
      by (simp add: encodeWAV_eq rt b_def)
    moreover have "drop 44 (blob_bytes b) = rawData"
      by (simp add: b_def length_header_bytes)
    moreover have "bytes_at (blob_bytes b) (44 + 2 * i) 2 =
                 [rawData ! (2 * i), rawData ! (2 * i + 1)] \<and>
               read_le (bytes_at (blob_bytes b) (44 + 2 * i) 2) = uint (pcmData ! i)"
      if "i < length pcmData" for i
    proof -
      have "bytes_at (blob_bytes b) (44 + 2 * i) 2 = [rawData ! (2 * i), rawData ! (2 * i + 1)]"
        using sample_position [OF assms, of i] that len by (simp add: b_def)
      then show ?thesis
        by (simp add: read_le_pair val [OF that])
    qed
    ultimately show ?thesis by blast
  qed
  from arr len samples out show ?thesis by blast
qed

text \<open>There the bytes 34 12 are the sample 4660.\<close>

lemma samples_little_endian_host_example:
  "even (length [0x34, 0x12 :: byte]) \<and>
   Int16Array LittleEndian [0x34, 0x12] = Inr [4660] \<and>
   sint (4660 :: 16 word) = 4660 \<and>
   (\<exists>b. encodeWAV [4660] 24000 1 = Inr b \<and> drop 44 (blob_bytes b) = [0x34, 0x12])"
proof -
  have e: "even (length [0x34, 0x12 :: byte])" by simp
  from samples_little_endian_host [OF e] Int16Array_endianness
  have "\<exists>b. encodeWAV [4660] 24000 1 = Inr b \<and> drop 44 (blob_bytes b) = [0x34, 0x12]"
    by auto
  with e Int16Array_endianness show ?thesis by simp
qed

subsection \<open>C7: the size fields wrap around\<close>

text \<open>
  Claim C7 says that \<open>encodeWAV\<close> fails with \<open>InvalidFormatError\<close> when
  \<open>dataBytes = sampleCount * 2\<close> does not fit the 32-bit size fields. The code has no
  such check: \<open>setUint32\<close> stores the value modulo \<open>2 ^ 32\<close>. For \<open>2 ^ 31\<close> samples
  the run succeeds, the buffer has \<open>44 + 2 ^ 32\<close> bytes, and the fields read 0 and 36.
\<close>

theorem encodeWAV_size_overflow_counterexample:
  "\<not> isl (encodeWAV (replicate (2 ^ 31) 0) 24000 1) \<and>
   length (blob_bytes (projr (encodeWAV (replicate (2 ^ 31) 0) 24000 1))) = 44 + 2 ^ 32 \<and>
   read_le (bytes_at (blob_bytes (projr (encodeWAV (replicate (2 ^ 31) 0) 24000 1))) 40 4) = 0 \<and>
   read_le (bytes_at (blob_bytes (projr (encodeWAV (replicate (2 ^ 31) 0) 24000 1))) 4 4) = 36"
  by (simp add: encodeWAV_total encodeWAV_size_fields)

text \<open>
  Claim C7, amended. For every sample buffer whose \<open>dataBytes = sampleCount * 2\<close> is
  \<open>2 ^ 32\<close> or more, \<open>encodeWAV\<close> does not fail: it returns a buffer of
  \<open>44 + dataBytes\<close> bytes whose ChunkSize and Subchunk2Size fields hold
  \<open>36 + dataBytes\<close> and \<open>dataBytes\<close> modulo \<open>2 ^ 32\<close>, so that Subchunk2Size is
  smaller than \<open>dataBytes\<close>.
\<close>

theorem encodeWAV_size_fields_wrap:
  assumes "2 ^ 32 \<le> 2 * length samples"
  shows "\<exists>b. encodeWAV samples sampleRate numChannels = Inr b \<and>
           length (blob_bytes b) = 44 + 2 * length samples \<and>
           read_le (bytes_at (blob_bytes b) 4 4) = (36 + 2 * int (length samples)) mod 2 ^ 32 \<and>
           read_le (bytes_at (blob_bytes b) 40 4) = (2 * int (length samples)) mod 2 ^ 32 \<and>
           read_le (bytes_at (blob_bytes b) 40 4) < 2 * int (length samples)"
proof -
  have "(2 * int (length samples)) mod 2 ^ 32 < 2 ^ 32" by simp
  also have "(2 ^ 32 :: int) \<le> 2 * int (length samples)"
  proof -
    from assms have "int (2 ^ 32) \<le> int (2 * length samples)" by (rule of_nat_mono)
    then show ?thesis by simp
  qed
  finally have "(2 * int (length samples)) mod 2 ^ 32 < 2 * int (length samples)" .
  then show ?thesis
    by (simp add: encodeWAV_eq bytes_at_append length_header_bytes header_fields
      read_le_raw_bytes length_concat_sample_bytes mult.commute)
qed

theorem encodeWAV_size_fields_wrap_witness:
  "(2::nat) ^ 32 \<le> 2 * length (replicate (2 ^ 31) (0 :: 16 word)) \<and>
   (\<exists>b. encodeWAV (replicate (2 ^ 31) 0) 24000 1 = Inr b \<and>
        length (blob_bytes b) = 44 + 2 ^ 32 \<and>
        read_le (bytes_at (blob_bytes b) 4 4) = 36 \<and>
        read_le (bytes_at (blob_bytes b) 40 4) = 0)"
proof -
  have h: "(2::nat) ^ 32 \<le> 2 * length (replicate (2 ^ 31) (0 :: 16 word))" by simp
  from encodeWAV_size_fields_wrap [OF h, of 24000 1]
  obtain b where b: "encodeWAV (replicate (2 ^ 31) 0) 24000 1 = Inr b"
    "length (blob_bytes b) = 44 + 2 * length (replicate (2 ^ 31) (0 :: 16 word))"
    "read_le (bytes_at (blob_bytes b) 4 4) =
       (36 + 2 * int (length (replicate (2 ^ 31) (0 :: 16 word)))) mod 2 ^ 32"
    "read_le (bytes_at (blob_bytes b) 40 4) =
       (2 * int (length (replicate (2 ^ 31) (0 :: 16 word)))) mod 2 ^ 32"
    by blast
  have "length (blob_bytes b) = 44 + 2 ^ 32" using b(2) by simp
  moreover have "read_le (bytes_at (blob_bytes b) 4 4) = 36" using b(3) by simp
  moreover have "read_le (bytes_at (blob_bytes b) 40 4) = 0" using b(4) by simp
  ultimately show ?thesis using h b(1) by blast
qed

subsection \<open>C8: the facade fixes 24000 Hz and one channel\<close>

text \<open>
  Claim C8. For every base64 input for which the facade \<open>createWavBlob\<close> produces a
  WAV, the SampleRate field of the header is 24000 and the NumChannels field is 1,
  whatever the input holds: the facade is the pipeline run with these two constants.
  \<open>createWavUrl\<close> only registers that blob under a URL.
\<close>

theorem facade_fixed_format:
  assumes "createWavBlob host base64Audio = Inr b"
  shows "read_le (bytes_at (blob_bytes b) 24 4) = 24000 \<and>
         read_le (bytes_at (blob_bytes b) 22 2) = 1 \<and>
         createWavBlob host base64Audio = encode_base64 host base64Audio 24000 1"
proof -
  from assms obtain pcmData where "encodeWAV pcmData 24000 1 = Inr b"
    by (auto simp add: createWavBlob_def and_then_def split: sum.splits)
  then have "blob_bytes b = header_bytes (length pcmData) 24000 1 @
                            concat (map sample_bytes pcmData)"
    by (auto simp add: encodeWAV_eq)
  then show ?thesis
    by (simp add: bytes_at_append length_header_bytes header_fields read_le_raw_bytes
        createWavBlob_eq)
qed

theorem facade_fixed_format_witness:
  "(\<exists>b. createWavBlob LittleEndian ''AQACAAMABAA='' = Inr b \<and>
        read_le (bytes_at (blob_bytes b) 24 4) = 24000 \<and>
        read_le (bytes_at (blob_bytes b) 22 2) = 1)"
  using facade_fixed_format [OF createWavBlob_known_vector] createWavBlob_known_vector
  by blast

subsection \<open>C9: determinism\<close>


text \<open>
  The byte order of the host reaches the sample bytes only: on any two hosts the runs
  fail on the same inputs with the same exception, and where they succeed the outputs
  have the same length and the same 44 header bytes.
\<close>

lemma runs_agree_up_to_sample_bytes:
  "(\<exists>e. encode_base64 host1 base64 sampleRate numChannels = Inl e \<and>
        encode_base64 host2 base64 sampleRate numChannels = Inl e) \<or>
   (\<exists>b1 b2. encode_base64 host1 base64 sampleRate numChannels = Inr b1 \<and>
        encode_base64 host2 base64 sampleRate numChannels = Inr b2 \<and>
        length (blob_bytes b1) = length (blob_bytes b2) \<and>
        take 44 (blob_bytes b1) = take 44 (blob_bytes b2))"
proof (cases "decode base64")
  case (Inl e)
  then show ?thesis by (simp add: encode_base64_def and_then_Inl)
next
  case (Inr rawData)
  show ?thesis
  proof (cases "even (length rawData)")
    case True
    with Inr show ?thesis
      by (simp add: encode_base64_def and_then_Inr Int16Array_even encodeWAV_eq
          length_header_bytes length_concat_sample_bytes length_int16_elements)
  next
    case False
    with Inr show ?thesis
      by (simp add: encode_base64_def and_then_Inr and_then_Inl Int16Array_odd)
  qed
qed

subsection \<open>C10: every write stays inside the buffer\<close>

text \<open>
  Claim C10. For every sample array of length \<open>n\<close>, every byte write of \<open>encodeWAV\<close>
  lands inside the allocated buffer of \<open>44 + 2 * n\<close> bytes. A \<open>DataView\<close> setter
  that would leave the view throws \<open>RangeError\<close> (\<open>set_value_out_of_bounds\<close>), so
  the claim is that no run of \<open>encodeWAV\<close> throws: it returns a buffer of that
  length for every input (first conjunct). The header statements succeed on every view
  of at least 44 bytes and leave the bytes from offset 44 on as they were (second
  conjunct). The \<open>i\<close>-th sample write, \<open>i < n\<close>, ends at offset \<open>44 + 2 * i + 2\<close>
  inside the view, succeeds, and leaves every byte before \<open>44 + 2 * i\<close> and from
  \<open>44 + 2 * i + 2\<close> on as it was (third conjunct).
\<close>

theorem encodeWAV_writes_in_bounds:
  "(\<exists>b. encodeWAV samples sampleRate numChannels = Inr b \<and>
        length (blob_bytes b) = 44 + 2 * length samples) \<and>
   (44 \<le> length view \<longrightarrow>
      (\<exists>v. write_header view n sampleRate numChannels = Inr v \<and>
           length v = length view \<and> drop 44 v = drop 44 view)) \<and>
   (i < length samples \<and> length view = 44 + 2 * length samples \<longrightarrow>
      44 + i * 2 + 2 \<le> length view \<and>
      (\<exists>v. setInt16 view (44 + i * 2) (sint (samples ! i)) True = Inr v \<and>
           length v = length view \<and>
           take (44 + i * 2) v = take (44 + i * 2) view \<and>
           drop (44 + i * 2 + 2) v = drop (44 + i * 2 + 2) view))"
proof (intro conjI impI)
  show "\<exists>b. encodeWAV samples sampleRate numChannels = Inr b \<and>
        length (blob_bytes b) = 44 + 2 * length samples"
    by (simp add: encodeWAV_eq length_header_bytes length_concat_sample_bytes)
next
  assume "44 \<le> length view"
  then show "\<exists>v. write_header view n sampleRate numChannels = Inr v \<and>
           length v = length view \<and> drop 44 v = drop 44 view"
    by (simp add: write_header_eq length_header_bytes)
next
  assume a: "i < length samples \<and> length view = 44 + 2 * length samples"
  then show "44 + i * 2 + 2 \<le> length view" by simp
  have b: "44 + i * 2 + 2 \<le> length view" using a by simp
  define bs where "bs = raw_bytes 2 (sint (samples ! i)) True"
  have lbs: "length bs = 2" by (simp add: bs_def length_raw_bytes)
  define v where "v = take (44 + i * 2) view @ bs @ drop (44 + i * 2 + length bs) view"
  have "setInt16 view (44 + i * 2) (sint (samples ! i)) True = Inr v"
    using b by (simp add: setInt16_def set_value_eq v_def bs_def length_raw_bytes)
  moreover have "length v = length view"
    using b by (simp add: v_def lbs)
  moreover have "take (44 + i * 2) v = take (44 + i * 2) view"
    using b by (simp add: v_def)
  moreover have "drop (44 + i * 2 + 2) v = drop (44 + i * 2 + 2) view"
    using b drop_patch [of "44 + i * 2" bs "44 + i * 2 + 2" view] lbs by (simp add: v_def)
  ultimately show "\<exists>v. setInt16 view (44 + i * 2) (sint (samples ! i)) True = Inr v \<and>
           length v = length view \<and>
           take (44 + i * 2) v = take (44 + i * 2) view \<and>
           drop (44 + i * 2 + 2) v = drop (44 + i * 2 + 2) view"
    by blast
qed

theorem encodeWAV_writes_in_bounds_witness:
  "(\<exists>b. encodeWAV [1, 2] 24000 1 = Inr b \<and> length (blob_bytes b) = 48) \<and>
   (\<exists>v. write_header (replicate 48 0) 2 24000 1 = Inr v \<and>
        length v = 48 \<and> drop 44 v = replicate 4 0) \<and>
   (\<exists>v. setInt16 (replicate 48 0) 46 2 True = Inr v \<and> length v = 48 \<and>
        take 46 v = replicate 46 0 \<and> drop 48 v = [])"
  using encodeWAV_writes_in_bounds [of "[1, 2]" 24000 1 "replicate 48 0" 2 1]
  by simp

end
